theory Spec2Isabelle
  imports Main "HOL-Library.Word" "HOL-Library.Multiset"
begin

section \<open>The connection pool of cluster/connpool.go\<close>

text \<open>
  The file \<^verbatim>\<open>cluster/connpool.go\<close> keeps, for every remote address, an array of gRPC
  client connections (\<^verbatim>\<open>connArray\<close>) and a registry of these arrays guarded by a
  read/write lock (\<^verbatim>\<open>rpcClient\<close>). The gRPC library is outside the repository: a
  connection is an opaque handle, and what a dial or a close answers is a parameter of
  the model (the record \<open>env\<close>), over which every theorem quantifies.
\<close>

subsection \<open>The transport: dialling and closing connections\<close>

text \<open>
  A connection handle (\<^verbatim>\<open>*grpc.ClientConn\<close>) is the number of the dial call that made it,
  so two dials never give the same handle. A nil pointer is \<open>None\<close>.
\<close>

type_synonym conn = nat

text \<open>
  The two kinds of \<^verbatim>\<open>error\<close> value of the file: the one made by
  \<^verbatim>\<open>errors.New("rpc client is closed")\<close> and the one \<^verbatim>\<open>grpc.DialContext\<close> answers,
  kept with its message.
\<close>

datatype error = ClientClosed | TransportError string

text \<open>Run-time panics of Go that the code of the file can raise.\<close>

datatype panic = DivideByZero | IndexOutOfRange

text \<open>
  What the outside world answers: \<open>dial_result env addr k\<close> is the answer to the
  \<open>k\<close>-th dial call ever made (counted from 0) when it dials \<open>addr\<close>: \<open>None\<close> for
  success, \<open>Some msg\<close> for an error; \<open>close_result env c k\<close> is the error answered by
  the \<open>k\<close>-th close call, made on connection \<open>c\<close>.
\<close>

record env =
  dial_result :: "string \<Rightarrow> nat \<Rightarrow> string option"
  close_result :: "conn \<Rightarrow> nat \<Rightarrow> string option"

text \<open>
  The observable state of the transport: the addresses dialled so far and the
  connections on which \<^verbatim>\<open>Close\<close> was called so far, both in call order.
\<close>

record net =
  dials :: "string list"
  closes :: "conn list"

text \<open>\<^verbatim>\<open>grpc.DialContext(ctx, addr, options...)\<close>: one dial call.\<close>

definition DialContext :: "env \<Rightarrow> string \<Rightarrow> net \<Rightarrow> (error + conn) \<times> net" where
  "DialContext e addr n =
     (let k = length (dials n); n' = n\<lparr>dials := dials n @ [addr]\<rparr>
      in case dial_result e addr k of
           Some msg \<Rightarrow> (Inl (TransportError msg), n')
         | None \<Rightarrow> (Inr k, n'))"

text \<open>\<^verbatim>\<open>c.Close()\<close> of a client connection: one close call, answering an error or nil.\<close>

definition conn_Close :: "env \<Rightarrow> conn \<Rightarrow> net \<Rightarrow> string option \<times> net" where
  "conn_Close e c n = (close_result e c (length (closes n)), n\<lparr>closes := closes n @ [c]\<rparr>)"

text \<open>
  A connection is open when a successful dial made it and no close call was made on it.
\<close>

definition is_open :: "env \<Rightarrow> net \<Rightarrow> conn \<Rightarrow> bool" where
  "is_open e n c =
     (c < length (dials n) \<and> dial_result e (dials n ! c) c = None \<and> c \<notin> set (closes n))"

subsection \<open>connArray\<close>

text \<open>
  \<^verbatim>\<open>type connArray struct { index uint32; v []*grpc.ClientConn }\<close>
\<close>

record connArray =
  index :: "32 word"
  v :: "conn option list"

text \<open>
  \<^verbatim>\<open>func (a *connArray) Close()\<close>: the loop \<^verbatim>\<open>for i, c := range a.v\<close> visits the indices
  in order; a non-nil slot is closed, the error of the close is dropped, and the slot
  is set to nil.
\<close>

fun Close_loop :: "env \<Rightarrow> nat list \<Rightarrow> connArray \<times> net \<Rightarrow> connArray \<times> net" where
  "Close_loop e [] (a, n) = (a, n)"
| "Close_loop e (i # is) (a, n) =
     (case v a ! i of
        None \<Rightarrow> Close_loop e is (a, n)
      | Some c \<Rightarrow>
          (let (err, n') = conn_Close e c n
           in Close_loop e is (a\<lparr>v := (v a)[i := None]\<rparr>, n')))"

definition Close :: "env \<Rightarrow> connArray \<times> net \<Rightarrow> connArray \<times> net" where
  "Close e an = Close_loop e [0..<length (v (fst an))] an"

text \<open>
  \<^verbatim>\<open>func (a *connArray) init(addr string, options ...grpc.DialOption) error\<close>: the loop
  \<^verbatim>\<open>for i := range a.v\<close> dials once per slot; at the first error it calls
  \<^verbatim>\<open>a.Close()\<close> and returns the error.
\<close>

fun init_loop ::
  "env \<Rightarrow> string \<Rightarrow> nat list \<Rightarrow> connArray \<times> net \<Rightarrow> error option \<times> connArray \<times> net" where
  "init_loop e addr [] (a, n) = (None, a, n)"
| "init_loop e addr (i # is) (a, n) =
     (case DialContext e addr n of
        (Inl err, n') \<Rightarrow> (let (a', n'') = Close e (a, n') in (Some err, a', n''))
      | (Inr c, n') \<Rightarrow> init_loop e addr is (a\<lparr>v := (v a)[i := Some c]\<rparr>, n'))"

definition init :: "env \<Rightarrow> string \<Rightarrow> connArray \<times> net \<Rightarrow> error option \<times> connArray \<times> net" where
  "init e addr an = init_loop e addr [0..<length (v (fst an))] an"

text \<open>
  \<^verbatim>\<open>func (a *connArray) Get() *grpc.ClientConn\<close>:
  \<^verbatim>\<open>next := atomic.AddUint32(&a.index, 1) % uint32(len(a.v)); return a.v[next]\<close>.
  The addition wraps at \<open>2 ^ 32\<close>, the conversion \<^verbatim>\<open>uint32(len(a.v))\<close> keeps the low 32
  bits of the length, the remainder by zero panics, and so does an index outside the
  slice. The counter is incremented before the remainder is taken, so it is incremented
  also when the call panics.
\<close>

definition Get :: "connArray \<Rightarrow> (panic + conn option) \<times> connArray" where
  "Get a =
     (let idx = index a + 1;
          a' = a\<lparr>index := idx\<rparr>;
          m = (of_nat (length (v a)) :: 32 word)
      in if m = 0 then (Inl DivideByZero, a')
         else (let next = unat (idx mod m)
               in if next < length (v a) then (Inr (v a ! next), a')
                  else (Inl IndexOutOfRange, a')))"

text \<open>\<open>Gets k a\<close>: \<open>k\<close> calls of \<^verbatim>\<open>Get\<close> one after the other, with their results in call order.\<close>

fun Gets :: "nat \<Rightarrow> connArray \<Rightarrow> (panic + conn option) list \<times> connArray" where
  "Gets 0 a = ([], a)"
| "Gets (Suc k) a =
     (let (r, a') = Get a; (rs, a'') = Gets k a' in (r # rs, a''))"

subsection \<open>The heap of connArrays and rpcClient\<close>

text \<open>
  The registry holds pointers (\<^verbatim>\<open>map[string]*connArray\<close>), and callers are handed the
  same pointers, so the arrays live in a store: a pointer is a position in \<open>heap\<close>, and
  \<^verbatim>\<open>&connArray{...}\<close> appends to it.

  \<^verbatim>\<open>type rpcClient struct { sync.RWMutex; isClosed bool; conns map[string]*connArray }\<close>
\<close>

type_synonym ptr = nat

record rpcClient =
  isClosed :: bool
  conns :: "string \<rightharpoonup> ptr"

record world =
  client :: rpcClient
  heap :: "connArray list"
  net :: net

text \<open>\<^verbatim>\<open>func newRPCClient() *rpcClient\<close>: an open client with an empty registry.\<close>

definition newRPCClient :: rpcClient where
  "newRPCClient = \<lparr>isClosed = False, conns = Map.empty\<rparr>"

text \<open>
  \<^verbatim>\<open>func newConnArray(maxSize uint, addr string) (*connArray, error)\<close>: the array is
  allocated with \<open>maxSize\<close> nil slots and then initialised; when \<^verbatim>\<open>init\<close> fails the
  caller gets \<^verbatim>\<open>nil, err\<close> and the allocated array stays behind, unreachable.
\<close>

definition newConnArray ::
  "env \<Rightarrow> nat \<Rightarrow> string \<Rightarrow> connArray list \<times> net \<Rightarrow> (error + ptr) \<times> connArray list \<times> net" where
  "newConnArray e maxSize addr hn =
     (let p = length (fst hn);
          a = \<lparr>index = 0, v = replicate maxSize None\<rparr>
      in case init e addr (a, snd hn) of
           (Some err, a', n') \<Rightarrow> (Inl err, fst hn @ [a'], n')
         | (None, a', n') \<Rightarrow> (Inr p, fst hn @ [a'], n'))"

text \<open>
  \<^verbatim>\<open>func (c *rpcClient) createConnArray(addr string) (*connArray, error)\<close>: the whole body
  runs under the exclusive lock.
\<close>

definition createConnArray :: "env \<Rightarrow> string \<Rightarrow> world \<Rightarrow> (error + ptr) \<times> world" where
  "createConnArray e addr w =
     (case conns (client w) addr of
        Some p \<Rightarrow> (Inr p, w)
      | None \<Rightarrow>
          (case newConnArray e 10 addr (heap w, net w) of
             (Inl err, h', n') \<Rightarrow> (Inl err, w\<lparr>heap := h', net := n'\<rparr>)
           | (Inr p, h', n') \<Rightarrow>
               (Inr p, w\<lparr>client := (client w)\<lparr>conns := (conns (client w))(addr \<mapsto> p)\<rparr>,
                          heap := h', net := n'\<rparr>)))"

text \<open>
  \<^verbatim>\<open>func (c *rpcClient) getConnArray(addr string) (*connArray, error)\<close>, run by one caller
  with nobody in between: the check of \<^verbatim>\<open>isClosed\<close> and the lookup under the read
  lock, then \<^verbatim>\<open>createConnArray\<close> when the address is missing.
\<close>

definition getConnArray :: "env \<Rightarrow> string \<Rightarrow> world \<Rightarrow> (error + ptr) \<times> world" where
  "getConnArray e addr w =
     (if isClosed (client w) then (Inl ClientClosed, w)
      else case conns (client w) addr of
             Some p \<Rightarrow> (Inr p, w)
           | None \<Rightarrow> createConnArray e addr w)"

text \<open>
  \<^verbatim>\<open>func (c *rpcClient) closeConns()\<close>. Go leaves the order of \<^verbatim>\<open>range c.conns\<close>
  open, so the order in which the keys are visited is an argument: \<open>order\<close> lists the
  keys of the registry, each once. The array behind each key is closed in the store; a
  registered pointer always lies in the store, and for any other nothing is done.
\<close>

definition close_at :: "env \<Rightarrow> ptr \<Rightarrow> world \<Rightarrow> world" where
  "close_at e p w =
     (if p < length (heap w)
      then (let (a', n') = Close e (heap w ! p, net w)
            in w\<lparr>heap := (heap w)[p := a'], net := n'\<rparr>)
      else w)"

fun close_all :: "env \<Rightarrow> string list \<Rightarrow> world \<Rightarrow> world" where
  "close_all e [] w = w"
| "close_all e (k # ks) w =
     (case conns (client w) k of
        None \<Rightarrow> close_all e ks w
      | Some p \<Rightarrow> close_all e ks (close_at e p w))"

definition closeConns :: "env \<Rightarrow> string list \<Rightarrow> world \<Rightarrow> world" where
  "closeConns e order w =
     (if \<not> isClosed (client w)
      then close_all e order (w\<lparr>client := (client w)\<lparr>isClosed := True\<rparr>\<rparr>)
      else w)"

subsection \<open>Goroutines calling into one rpcClient\<close>

text \<open>
  Every access to the fields of \<^verbatim>\<open>rpcClient\<close> happens with the \<^verbatim>\<open>sync.RWMutex\<close>
  held: \<^verbatim>\<open>createConnArray\<close> and \<^verbatim>\<open>closeConns\<close> hold the exclusive lock from their
  first statement to their last, and the first half of \<^verbatim>\<open>getConnArray\<close> holds the
  read lock and only reads. So a run of several goroutines is an interleaving of these
  locked sections, each taken as one step. A goroutine is where its call stands:
  \<^item> \<open>Calling_get addr\<close>: about to enter \<^verbatim>\<open>getConnArray(addr)\<close>;
  \<^item> \<open>Creating addr\<close>: past \<^verbatim>\<open>c.RUnlock()\<close> with the address missing, about to call
    \<^verbatim>\<open>c.createConnArray(addr)\<close>;
  \<^item> \<open>Returned r\<close>: \<^verbatim>\<open>getConnArray\<close> has returned \<open>r\<close>;
  \<^item> \<open>Calling_close order\<close>: about to enter \<^verbatim>\<open>closeConns()\<close>, whose \<^verbatim>\<open>range\<close> will
    visit the keys in \<open>order\<close>;
  \<^item> \<open>Close_returned\<close>: \<^verbatim>\<open>closeConns\<close> has returned.
\<close>

datatype goroutine =
    Calling_get string
  | Creating string
  | Returned "error + ptr"
  | Calling_close "string list"
  | Close_returned

text \<open>One step of goroutine \<open>t\<close>; a goroutine that has returned does nothing more.\<close>

definition step :: "env \<Rightarrow> nat \<Rightarrow> goroutine list \<times> world \<Rightarrow> goroutine list \<times> world" where
  "step e t gw =
     (let gs = fst gw; w = snd gw
      in if t < length gs
         then (case gs ! t of
                 Calling_get addr \<Rightarrow>
                   (if isClosed (client w) then (gs[t := Returned (Inl ClientClosed)], w)
                    else case conns (client w) addr of
                           Some p \<Rightarrow> (gs[t := Returned (Inr p)], w)
                         | None \<Rightarrow> (gs[t := Creating addr], w))
               | Creating addr \<Rightarrow>
                   (let (r, w') = createConnArray e addr w in (gs[t := Returned r], w'))
               | Returned r \<Rightarrow> (gs, w)
               | Calling_close order \<Rightarrow> (gs[t := Close_returned], closeConns e order w)
               | Close_returned \<Rightarrow> (gs, w))
         else (gs, w))"

text \<open>A schedule names the goroutine that takes each step.\<close>

fun run :: "env \<Rightarrow> nat list \<Rightarrow> goroutine list \<times> world \<Rightarrow> goroutine list \<times> world" where
  "run e [] gw = gw"
| "run e (t # ts) gw = run e ts (step e t gw)"

subsection \<open>Auxiliary notions and sample inputs\<close>

text \<open>The connections held by the slots of an array, in slot order, nil slots left out.\<close>

definition conns_of :: "conn option list \<Rightarrow> conn list" where
  "conns_of xs = List.map_filter (\<lambda>x. x) xs"

text \<open>A fresh process: a new client, no array allocated, nothing dialled or closed.\<close>

definition world0 :: world where
  "world0 = \<lparr>client = newRPCClient, heap = [], net = \<lparr>dials = [], closes = []\<rparr>\<rparr>"

text \<open>A transport on which every dial and every close succeeds.\<close>

definition env_ok :: env where
  "env_ok = \<lparr>dial_result = (\<lambda>addr k. None), close_result = (\<lambda>c k. None)\<rparr>"

text \<open>
  A transport on which only dial call number \<open>j\<close> fails, and every close answers an error.
\<close>

definition env_fail_at :: "nat \<Rightarrow> env" where
  "env_fail_at j =
     \<lparr>dial_result = (\<lambda>addr k. if k = j then Some ''connection refused'' else None),
      close_result = (\<lambda>c k. Some ''close failed'')\<rparr>"

text \<open>
  Three arrays: one of three slots with its counter at 0; one of ten slots, as
  \<^verbatim>\<open>createConnArray\<close> makes them, whose counter has reached the largest 32-bit value;
  and one of \<open>2 ^ 32\<close> slots.
\<close>

definition array3 :: connArray where
  "array3 = \<lparr>index = 0, v = [Some 10, Some 11, Some 12]\<rparr>"

definition array_wrap :: connArray where
  "array_wrap = \<lparr>index = 4294967295, v = map Some [0..<10]\<rparr>"

definition array_huge :: connArray where
  "array_huge = \<lparr>index = 0, v = replicate (2 ^ 32) (Some 0)\<rparr>"

text \<open>
  The process after one successful \<^verbatim>\<open>createConnArray(addr)\<close> on a fresh client over a
  transport that never fails: the array of the ten connections dialled is registered.
\<close>

definition world_reg :: "string \<Rightarrow> world" where
  "world_reg addr =
     \<lparr>client = \<lparr>isClosed = False, conns = [addr \<mapsto> 0]\<rparr>,
      heap = [\<lparr>index = 0, v = map Some [0..<10]\<rparr>],
      net = \<lparr>dials = replicate 10 addr, closes = []\<rparr>\<rparr>"





section \<open>Properties\<close>

subsection \<open>Closing an array\<close>

lemma conns_of_simps [simp]:
  "conns_of [] = []"
  "conns_of (None # xs) = conns_of xs"
  "conns_of (Some c # xs) = c # conns_of xs"
  by (simp_all add: conns_of_def List.map_filter_simps)

lemma conns_of_append [simp]: "conns_of (xs @ ys) = conns_of xs @ conns_of ys"
  by (simp add: conns_of_def List.map_filter_def)

lemma conns_of_replicate_None [simp]: "conns_of (replicate k None) = []"
  by (induction k) simp_all

lemma conns_of_map_Some [simp]: "conns_of (map Some xs) = xs"
  by (induction xs) simp_all

text \<open>
  The loop of \<^verbatim>\<open>Close\<close> from slot \<open>k\<close> on: the slots before \<open>k\<close> are kept, the others
  are nil afterwards, and the close calls made are those on the connections the slots
  from \<open>k\<close> on held.
\<close>

lemma Close_loop_drop:
  "length (v a) = m \<Longrightarrow> k \<le> m \<Longrightarrow>
   Close_loop e [k..<m] (a, n) =
     (a\<lparr>v := take k (v a) @ replicate (m - k) None\<rparr>,
      n\<lparr>closes := closes n @ conns_of (drop k (v a))\<rparr>)"
proof (induction "m - k" arbitrary: k a n)
  case 0
  then show ?case by simp
next
  case (Suc d)
  then have km: "k < m" by simp
  have upt: "[k..<m] = k # [Suc k..<m]" using km by (simp add: upt_conv_Cons)
  have dr: "drop k (v a) = v a ! k # drop (Suc k) (v a)"
    using km Suc.prems by (simp add: Cons_nth_drop_Suc)
  have tk: "\<And>x. take (Suc k) ((v a)[k := x]) = take k (v a) @ [x]"
    using km Suc.prems by (simp add: take_Suc_conv_app_nth)
  have rp: "replicate (m - k) (None :: conn option) = None # replicate (m - Suc k) None"
    using km by (cases "m - k") (simp_all add: Suc_diff_Suc)
  show ?case
  proof (cases "v a ! k")
    case None
    have tk': "take (Suc k) (v a) = take k (v a) @ [None]"
      using km Suc.prems None by (simp add: take_Suc_conv_app_nth)
    have "Close_loop e [k..<m] (a, n) = Close_loop e [Suc k..<m] (a, n)"
      using None upt by simp
    also have "\<dots> = (a\<lparr>v := take (Suc k) (v a) @ replicate (m - Suc k) None\<rparr>,
      n\<lparr>closes := closes n @ conns_of (drop (Suc k) (v a))\<rparr>)"
      using Suc.hyps(1)[of "Suc k" a n] Suc.hyps(2) Suc.prems km by simp
    finally show ?thesis using None dr tk' rp by simp
  next
    case (Some c)
    let ?a = "a\<lparr>v := (v a)[k := None]\<rparr>"
    let ?n = "n\<lparr>closes := closes n @ [c]\<rparr>"
    have "Close_loop e [k..<m] (a, n) = Close_loop e [Suc k..<m] (?a, ?n)"
      using Some upt by (simp add: conn_Close_def)
    also have "\<dots> = (?a\<lparr>v := take (Suc k) (v ?a) @ replicate (m - Suc k) None\<rparr>,
      ?n\<lparr>closes := closes ?n @ conns_of (drop (Suc k) (v ?a))\<rparr>)"
      using Suc.hyps(1)[of "Suc k" ?a ?n] Suc.hyps(2) Suc.prems km by simp
    finally show ?thesis using Some dr tk rp by simp
  qed
qed

lemma Close_eq:
  "Close e (a, n) =
     (a\<lparr>v := replicate (length (v a)) None\<rparr>, n\<lparr>closes := closes n @ conns_of (v a)\<rparr>)"
  using Close_loop_drop[of a "length (v a)" 0 e n] by (simp add: Close_def)

text \<open>
  C8. Whatever the close calls answer (\<open>e\<close> is arbitrary, so any of them may answer an
  error), \<^verbatim>\<open>Close\<close> calls close once on the connection of every non-nil slot, in slot
  order, and leaves every slot nil; it has no error to return. A second \<^verbatim>\<open>Close\<close>
  changes nothing: it makes no close call and leaves the slots nil.
\<close>

theorem connArray_Close_idempotent:
  "Close e (a, n) =
     (a\<lparr>v := replicate (length (v a)) None\<rparr>, n\<lparr>closes := closes n @ conns_of (v a)\<rparr>)
   \<and> Close e (Close e (a, n)) = Close e (a, n)"
  by (simp add: Close_eq)

theorem connArray_Close_idempotent_witness:
  "Close (env_fail_at 0) (\<lparr>index = 7, v = [Some 4, None, Some 5]\<rparr>, \<lparr>dials = [], closes = [1]\<rparr>) =
     (\<lparr>index = 7, v = [None, None, None]\<rparr>, \<lparr>dials = [], closes = [1, 4, 5]\<rparr>)
   \<and> Close (env_fail_at 0)
        (Close (env_fail_at 0)
           (\<lparr>index = 7, v = [Some 4, None, Some 5]\<rparr>, \<lparr>dials = [], closes = [1]\<rparr>)) =
     Close (env_fail_at 0)
       (\<lparr>index = 7, v = [Some 4, None, Some 5]\<rparr>, \<lparr>dials = [], closes = [1]\<rparr>)"
  using connArray_Close_idempotent
    [of "env_fail_at 0" "\<lparr>index = 7, v = [Some 4, None, Some 5]\<rparr>" "\<lparr>dials = [], closes = [1]\<rparr>"]
  by (simp add: Close_eq)

subsection \<open>Initialising an array\<close>

lemma DialContext_ok:
  "dial_result e addr (length (dials n)) = None \<Longrightarrow>
   DialContext e addr n = (Inr (length (dials n)), n\<lparr>dials := dials n @ [addr]\<rparr>)"
  by (simp add: DialContext_def)

lemma DialContext_fail:
  "dial_result e addr (length (dials n)) = Some msg \<Longrightarrow>
   DialContext e addr n = (Inl (TransportError msg), n\<lparr>dials := dials n @ [addr]\<rparr>)"
  by (simp add: DialContext_def)

text \<open>
  The loop of \<^verbatim>\<open>init\<close> from slot \<open>k\<close> on, when \<open>d + j\<close> is the number of the dial call
  made for slot \<open>j\<close>: with every dial succeeding it fills the slots from \<open>k\<close> on with
  the connections dialled; with the dial for slot \<open>i\<close> failing it stops there and
  closes the array.
\<close>

lemma init_loop_ok:
  "length (v a) = m \<Longrightarrow> k \<le> m \<Longrightarrow> length (dials n) = d + k \<Longrightarrow>
   (\<forall>j. k \<le> j \<and> j < m \<longrightarrow> dial_result e addr (d + j) = None) \<Longrightarrow>
   init_loop e addr [k..<m] (a, n) =
     (None, a\<lparr>v := take k (v a) @ map Some [d + k..<d + m]\<rparr>,
      n\<lparr>dials := dials n @ replicate (m - k) addr\<rparr>)"
proof (induction "m - k" arbitrary: k a n)
  case 0
  then show ?case by simp
next
  case (Suc x)
  then have km: "k < m" by simp
  have upt: "[k..<m] = k # [Suc k..<m]" using km by (simp add: upt_conv_Cons)
  let ?a = "a\<lparr>v := (v a)[k := Some (d + k)]\<rparr>"
  let ?n = "n\<lparr>dials := dials n @ [addr]\<rparr>"
  have dial: "DialContext e addr n = (Inr (d + k), ?n)"
    using DialContext_ok[of e addr n] Suc.prems km by simp
  have tk: "take (Suc k) (v ?a) = take k (v a) @ [Some (d + k)]"
    using km Suc.prems by (simp add: take_Suc_conv_app_nth)
  have ups: "[d + k..<d + m] = (d + k) # [d + Suc k..<d + m]"
    using km by (simp add: upt_conv_Cons)
  have rp: "replicate (m - k) addr = addr # replicate (m - Suc k) addr"
    using km by (cases "m - k") (simp_all add: Suc_diff_Suc)
  have "init_loop e addr [k..<m] (a, n) = init_loop e addr [Suc k..<m] (?a, ?n)"
    using upt dial by simp
  also have "\<dots> = (None, ?a\<lparr>v := take (Suc k) (v ?a) @ map Some [d + Suc k..<d + m]\<rparr>,
      ?n\<lparr>dials := dials ?n @ replicate (m - Suc k) addr\<rparr>)"
    using Suc.hyps(1)[of "Suc k" ?a ?n] Suc.hyps(2) Suc.prems km by simp
  finally show ?case using tk ups rp by simp
qed

lemma init_loop_fail:
  "length (v a) = m \<Longrightarrow> k \<le> i \<Longrightarrow> i < m \<Longrightarrow> length (dials n) = d + k \<Longrightarrow>
   (\<forall>j. k \<le> j \<and> j < i \<longrightarrow> dial_result e addr (d + j) = None) \<Longrightarrow>
   dial_result e addr (d + i) = Some msg \<Longrightarrow>
   init_loop e addr [k..<m] (a, n) =
     (Some (TransportError msg), a\<lparr>v := replicate m None\<rparr>,
      n\<lparr>dials := dials n @ replicate (Suc i - k) addr,
        closes := closes n @ conns_of (take k (v a)) @ [d + k..<d + i]
                    @ conns_of (drop i (v a))\<rparr>)"
proof (induction "i - k" arbitrary: k a n)
  case 0
  then have ki: "k = i" by simp
  have upt: "[k..<m] = k # [Suc k..<m]" using 0 by (simp add: upt_conv_Cons)
  let ?n = "n\<lparr>dials := dials n @ [addr]\<rparr>"
  have dial: "DialContext e addr n = (Inl (TransportError msg), ?n)"
    using DialContext_fail[of e addr n msg] "0.prems" ki by simp
  have split: "conns_of (v a) = conns_of (take i (v a)) @ conns_of (drop i (v a))"
    using conns_of_append[of "take i (v a)" "drop i (v a)"] by simp
  show ?case using upt dial ki "0.prems"(1) split by (simp add: Close_eq)
next
  case (Suc x)
  then have ki: "k < i" and km: "k < m" by simp_all
  have upt: "[k..<m] = k # [Suc k..<m]" using km by (simp add: upt_conv_Cons)
  let ?a = "a\<lparr>v := (v a)[k := Some (d + k)]\<rparr>"
  let ?n = "n\<lparr>dials := dials n @ [addr]\<rparr>"
  have dial: "DialContext e addr n = (Inr (d + k), ?n)"
    using DialContext_ok[of e addr n] Suc.prems ki by simp
  have tk: "take (Suc k) (v ?a) = take k (v a) @ [Some (d + k)]"
    using km Suc.prems by (simp add: take_Suc_conv_app_nth)
  have dr: "drop i (v ?a) = drop i (v a)" using ki by simp
  have ups: "[d + k..<d + i] = (d + k) # [d + Suc k..<d + i]"
    using ki by (simp add: upt_conv_Cons)
  have rp: "replicate (Suc i - k) addr = addr # replicate (Suc i - Suc k) addr"
    using ki by (simp add: Suc_diff_le)
  have "init_loop e addr [k..<m] (a, n) = init_loop e addr [Suc k..<m] (?a, ?n)"
    using upt dial by simp
  also have "\<dots> = (Some (TransportError msg), ?a\<lparr>v := replicate m None\<rparr>,
      ?n\<lparr>dials := dials ?n @ replicate (Suc i - Suc k) addr,
        closes := closes ?n @ conns_of (take (Suc k) (v ?a)) @ [d + Suc k..<d + i]
                    @ conns_of (drop i (v ?a))\<rparr>)"
    using Suc.hyps(1)[of "Suc k" ?a ?n] Suc.hyps(2) Suc.prems ki by simp
  finally show ?case using tk dr ups rp by simp
qed


lemma init_ok:
  "(\<forall>j<length (v a). dial_result e addr (length (dials n) + j) = None) \<Longrightarrow>
   init e addr (a, n) =
     (None, a\<lparr>v := map Some [length (dials n)..<length (dials n) + length (v a)]\<rparr>,
      n\<lparr>dials := dials n @ replicate (length (v a)) addr\<rparr>)"
  using init_loop_ok[of a "length (v a)" 0 n "length (dials n)" e addr]
  by (simp add: init_def)

lemma init_fail:
  "i < length (v a) \<Longrightarrow>
   (\<forall>j<i. dial_result e addr (length (dials n) + j) = None) \<Longrightarrow>
   dial_result e addr (length (dials n) + i) = Some msg \<Longrightarrow>
   init e addr (a, n) =
     (Some (TransportError msg), a\<lparr>v := replicate (length (v a)) None\<rparr>,
      n\<lparr>dials := dials n @ replicate (Suc i) addr,
        closes := closes n @ [length (dials n)..<length (dials n) + i]
                    @ conns_of (drop i (v a))\<rparr>)"
  using init_loop_fail[of a "length (v a)" 0 i n "length (dials n)" e addr msg]
  by (simp add: init_def)

lemma newConnArray_ok:
  "(\<forall>j<maxSize. dial_result e addr (length (dials n) + j) = None) \<Longrightarrow>
   newConnArray e maxSize addr (h, n) =
     (Inr (length h),
      h @ [\<lparr>index = 0, v = map Some [length (dials n)..<length (dials n) + maxSize]\<rparr>],
      n\<lparr>dials := dials n @ replicate maxSize addr\<rparr>)"
  using init_ok[of "\<lparr>index = 0, v = replicate maxSize None\<rparr>" e addr n]
  by (simp add: newConnArray_def)

lemma newConnArray_fail:
  "i < maxSize \<Longrightarrow>
   (\<forall>j<i. dial_result e addr (length (dials n) + j) = None) \<Longrightarrow>
   dial_result e addr (length (dials n) + i) = Some msg \<Longrightarrow>
   newConnArray e maxSize addr (h, n) =
     (Inl (TransportError msg),
      h @ [\<lparr>index = 0, v = replicate maxSize None\<rparr>],
      n\<lparr>dials := dials n @ replicate (Suc i) addr,
        closes := closes n @ [length (dials n)..<length (dials n) + i]\<rparr>)"
  using init_fail[of i "\<lparr>index = 0, v = replicate maxSize None\<rparr>" e addr n msg]
  by (simp add: newConnArray_def)

lemma first_failure:
  fixes f :: "nat \<Rightarrow> string option"
  shows "(\<forall>j<maxSize. f j = None) \<or> (\<exists>i<maxSize. (\<forall>j<i. f j = None) \<and> (\<exists>msg. f i = Some msg))"
proof (cases "\<forall>j<maxSize. f j = None")
  case True
  then show ?thesis by simp
next
  case False
  then obtain j where j: "j < maxSize" "f j \<noteq> None" by auto
  define i where "i = (LEAST j. f j \<noteq> None)"
  have fi: "f i \<noteq> None" unfolding i_def using LeastI[of "\<lambda>j. f j \<noteq> None" j] j(2) by simp
  have le: "i \<le> j" unfolding i_def using Least_le[of "\<lambda>j. f j \<noteq> None" j] j(2) by simp
  have before: "\<forall>j<i. f j = None"
    unfolding i_def using not_less_Least[of _ "\<lambda>j. f j \<noteq> None"] by blast
  from fi obtain msg where msg: "f i = Some msg" by auto
  have "i < maxSize" using le j(1) by simp
  then show ?thesis using before msg by blast
qed

lemma fresh_is_open:
  assumes old: "\<forall>c\<in>set (closes n). c < length (dials n)"
    and ok: "\<forall>j<maxSize. dial_result e addr (length (dials n) + j) = None"
    and c: "c \<in> set [length (dials n)..<length (dials n) + maxSize]"
  shows "is_open e (n\<lparr>dials := dials n @ replicate maxSize addr\<rparr>) c"
proof -
  from c obtain j where j: "c = length (dials n) + j" "j < maxSize"
    by (auto simp: le_iff_add)
  have "c \<notin> set (closes n)" using old j by auto
  moreover have "(dials n @ replicate maxSize addr) ! c = addr"
    using j by (simp add: nth_append)
  ultimately show ?thesis using ok j by (simp add: is_open_def)
qed

text \<open>
  C4. \<^verbatim>\<open>newConnArray\<close>, and with it \<^verbatim>\<open>init\<close>, is all or nothing. When each of the
  \<open>maxSize\<close> dials succeeds, the caller gets the pointer to an array whose slots hold
  the \<open>maxSize\<close> connections just dialled, none of them nil, no close call was made,
  and (on a transport that has closed only connections dialled before) each of them is
  open. When the dial for slot \<open>i\<close> is the first to fail, exactly \<open>i + 1\<close> dials were
  made, close was called on exactly the connections of the slots \<open>0..i-1\<close>, every slot
  of the array is nil, and the caller gets the error of that dial and no pointer. One
  of the two cases always applies.
\<close>

theorem newConnArray_all_or_nothing:
  "((\<forall>j<maxSize. dial_result e addr (length (dials n) + j) = None) \<longrightarrow>
      newConnArray e maxSize addr (h, n) =
        (Inr (length h),
         h @ [\<lparr>index = 0, v = map Some [length (dials n)..<length (dials n) + maxSize]\<rparr>],
         n\<lparr>dials := dials n @ replicate maxSize addr\<rparr>)
      \<and> ((\<forall>c\<in>set (closes n). c < length (dials n)) \<longrightarrow>
           (\<forall>c\<in>set [length (dials n)..<length (dials n) + maxSize].
              is_open e (n\<lparr>dials := dials n @ replicate maxSize addr\<rparr>) c)))
   \<and> (i < maxSize \<and> (\<forall>j<i. dial_result e addr (length (dials n) + j) = None)
         \<and> dial_result e addr (length (dials n) + i) = Some msg \<longrightarrow>
       newConnArray e maxSize addr (h, n) =
         (Inl (TransportError msg),
          h @ [\<lparr>index = 0, v = replicate maxSize None\<rparr>],
          n\<lparr>dials := dials n @ replicate (Suc i) addr,
            closes := closes n @ [length (dials n)..<length (dials n) + i]\<rparr>))
   \<and> ((\<forall>j<maxSize. dial_result e addr (length (dials n) + j) = None)
       \<or> (\<exists>i<maxSize. (\<forall>j<i. dial_result e addr (length (dials n) + j) = None)
             \<and> (\<exists>msg. dial_result e addr (length (dials n) + i) = Some msg)))"
proof (intro conjI impI)
  assume "\<forall>j<maxSize. dial_result e addr (length (dials n) + j) = None"
  then show "newConnArray e maxSize addr (h, n) =
        (Inr (length h),
         h @ [\<lparr>index = 0, v = map Some [length (dials n)..<length (dials n) + maxSize]\<rparr>],
         n\<lparr>dials := dials n @ replicate maxSize addr\<rparr>)"
    by (rule newConnArray_ok)
next
  assume "\<forall>j<maxSize. dial_result e addr (length (dials n) + j) = None"
    and "\<forall>c\<in>set (closes n). c < length (dials n)"
  then show "\<forall>c\<in>set [length (dials n)..<length (dials n) + maxSize].
              is_open e (n\<lparr>dials := dials n @ replicate maxSize addr\<rparr>) c"
    using fresh_is_open[of n maxSize e addr] by blast
next
  assume "i < maxSize \<and> (\<forall>j<i. dial_result e addr (length (dials n) + j) = None)
         \<and> dial_result e addr (length (dials n) + i) = Some msg"
  then show "newConnArray e maxSize addr (h, n) =
         (Inl (TransportError msg),
          h @ [\<lparr>index = 0, v = replicate maxSize None\<rparr>],
          n\<lparr>dials := dials n @ replicate (Suc i) addr,
            closes := closes n @ [length (dials n)..<length (dials n) + i]\<rparr>)"
    using newConnArray_fail[of i maxSize e addr n msg h] by blast
next
  show "(\<forall>j<maxSize. dial_result e addr (length (dials n) + j) = None)
       \<or> (\<exists>i<maxSize. (\<forall>j<i. dial_result e addr (length (dials n) + j) = None)
             \<and> (\<exists>msg. dial_result e addr (length (dials n) + i) = Some msg))"
    by (rule first_failure)
qed

theorem newConnArray_all_or_nothing_witness:
  "newConnArray env_ok 3 ''a'' ([], \<lparr>dials = [], closes = []\<rparr>) =
     (Inr 0, [\<lparr>index = 0, v = [Some 0, Some 1, Some 2]\<rparr>],
      \<lparr>dials = [''a'', ''a'', ''a''], closes = []\<rparr>)
   \<and> is_open env_ok \<lparr>dials = [''a'', ''a'', ''a''], closes = []\<rparr> 2
   \<and> newConnArray (env_fail_at 2) 10 ''a'' ([], \<lparr>dials = [], closes = []\<rparr>) =
     (Inl (TransportError ''connection refused''),
      [\<lparr>index = 0, v = replicate 10 None\<rparr>],
      \<lparr>dials = [''a'', ''a'', ''a''], closes = [0, 1]\<rparr>)"
proof -
  have up3: "[0..<3] = [0, 1, 2]" by (simp add: upt_rec)
  have up2: "[0..<2] = [0, 1]" by (simp add: upt_rec)
  have r3: "replicate 3 ''a'' = [''a'', ''a'', ''a'']" by (simp add: numeral_3_eq_3)
  have A: "newConnArray env_ok 3 ''a'' ([], \<lparr>dials = [], closes = []\<rparr>) =
     (Inr 0, [\<lparr>index = 0, v = map Some [0..<3]\<rparr>], \<lparr>dials = replicate 3 ''a'', closes = []\<rparr>)
     \<and> is_open env_ok \<lparr>dials = replicate 3 ''a'', closes = []\<rparr> 2"
    using newConnArray_all_or_nothing[where maxSize = 3 and e = env_ok and addr = "''a''"
        and n = "\<lparr>dials = [], closes = []\<rparr>" and h = "[]"]
    by (simp add: env_ok_def)
  have B: "newConnArray (env_fail_at 2) 10 ''a'' ([], \<lparr>dials = [], closes = []\<rparr>) =
     (Inl (TransportError ''connection refused''),
      [\<lparr>index = 0, v = replicate 10 None\<rparr>],
      \<lparr>dials = replicate 3 ''a'', closes = [0, 1]\<rparr>)"
    using newConnArray_all_or_nothing[where maxSize = 10 and e = "env_fail_at 2" and addr = "''a''"
        and n = "\<lparr>dials = [], closes = []\<rparr>" and h = "[]" and i = 2
        and msg = "''connection refused''"]
    by (simp add: env_fail_at_def)
  show ?thesis using A B up3 up2 r3 by simp
qed

subsection \<open>Selecting a connection\<close>

text \<open>
  \<^verbatim>\<open>Get\<close> divides by the low 32 bits of the length of the slice: it panics exactly when
  these are zero, and else returns the slot numbered by the incremented counter modulo
  them; the index is then always inside the slice.
\<close>

lemma unat_len32: "unat (of_nat k :: 32 word) = k mod 2 ^ 32"
  by (simp add: unat_of_nat)

lemma Get_eq:
  assumes "length (v a) mod 2 ^ 32 \<noteq> 0"
  shows "Get a =
     (Inr (v a ! (unat (index a + 1) mod (length (v a) mod 2 ^ 32))), a\<lparr>index := index a + 1\<rparr>)"
proof -
  let ?m = "of_nat (length (v a)) :: 32 word"
  have um: "unat ?m = length (v a) mod 2 ^ 32" by (rule unat_len32)
  have m0: "?m \<noteq> 0" using assms um by (metis unat_0)
  have "unat ((index a + 1) mod ?m) = unat (index a + 1) mod (length (v a) mod 2 ^ 32)"
    by (simp add: unat_mod um)
  moreover have "unat (index a + 1) mod (length (v a) mod 2 ^ 32) < length (v a) mod 2 ^ 32"
    using assms by simp
  moreover have "length (v a) mod 2 ^ 32 \<le> length (v a)" by simp
  ultimately show ?thesis using m0 by (simp add: Get_def Let_def)
qed

lemma Get_zero:
  assumes "length (v a) mod 2 ^ 32 = 0"
  shows "Get a = (Inl DivideByZero, a\<lparr>index := index a + 1\<rparr>)"
proof -
  have "unat (of_nat (length (v a)) :: 32 word) = 0" using assms by (simp add: unat_len32)
  then have "(of_nat (length (v a)) :: 32 word) = 0" by (simp add: unat_eq_0)
  then show ?thesis by (simp add: Get_def Let_def)
qed

lemma Gets_eq:
  "length (v a) mod 2 ^ 32 \<noteq> 0 \<Longrightarrow>
   Gets k a =
     (map (\<lambda>i. Inr (v a ! (unat (index a + of_nat i) mod (length (v a) mod 2 ^ 32)))) [1..<Suc k],
      a\<lparr>index := index a + of_nat k\<rparr>)"
proof (induction k arbitrary: a)
  case 0
  then show ?case by simp
next
  case (Suc k)
  let ?a = "a\<lparr>index := index a + 1\<rparr>"
  let ?f = "\<lambda>i. Inr (v a ! (unat (index a + of_nat i) mod (length (v a) mod 2 ^ 32))) :: panic + conn option"
  have g: "Get a = (?f 1, ?a)" using Get_eq[OF Suc.prems] by simp
  have ih: "Gets k ?a = (map (\<lambda>i. ?f (Suc i)) [1..<Suc k], ?a\<lparr>index := index ?a + of_nat k\<rparr>)"
    using Suc.IH[of ?a] Suc.prems by (simp add: add.assoc)
  have "[1..<Suc (Suc k)] = 1 # map Suc [1..<Suc k]"
    by (simp add: map_Suc_upt upt_conv_Cons del: upt_Suc)
  then have m: "map ?f [1..<Suc (Suc k)] = ?f 1 # map (\<lambda>i. ?f (Suc i)) [1..<Suc k]"
    by (simp add: comp_def del: upt_Suc)
  have st: "?a\<lparr>index := index ?a + of_nat k\<rparr> = a\<lparr>index := index a + of_nat (Suc k)\<rparr>"
    by (simp add: add.assoc)
  have "Gets (Suc k) a = (?f 1 # map (\<lambda>i. ?f (Suc i)) [1..<Suc k], ?a\<lparr>index := index ?a + of_nat k\<rparr>)"
    by (simp only: Gets.simps g ih Let_def prod.case)
  then show ?case by (simp only: m st)
qed

lemma unat_no_wrap:
  "unat (c :: 32 word) + i < 2 ^ 32 \<Longrightarrow> unat (c + of_nat i) = unat c + i"
  by (simp add: unat_word_ariths unat_of_nat)

lemma window_perm:
  assumes "0 < (k::nat)"
  shows "mset (map (\<lambda>i. (c + i) mod k) [1..<Suc k]) = mset [0..<k]"
proof -
  let ?f = "\<lambda>i. (c + i) mod k"
  have inj: "inj_on ?f {1..<Suc k}"
  proof (rule inj_onI)
    fix i j assume i: "i \<in> {1..<Suc k}" and j: "j \<in> {1..<Suc k}" and eq: "?f i = ?f j"
    show "i = j"
    proof (rule ccontr)
      assume ne: "i \<noteq> j"
      have *: "\<And>x y. 1 \<le> x \<Longrightarrow> x < y \<Longrightarrow> y \<le> k \<Longrightarrow> (c + x) mod k = (c + y) mod k \<Longrightarrow> False"
      proof -
        fix x y :: nat assume xy: "1 \<le> x" "x < y" "y \<le> k" and e: "(c + x) mod k = (c + y) mod k"
        have "c + x \<le> c + y" using xy by simp
        then have "k dvd (c + y) - (c + x)"
          using e mod_eq_dvd_iff_nat[of "c + x" "c + y" k] by simp
        then have "k dvd y - x" by simp
        moreover have "0 < y - x" "y - x < k" using xy i by auto
        ultimately show False by (meson dvd_imp_le not_less)
      qed
      show False
      proof (cases "i < j")
        case True then show False using * [of i j] i j eq by auto
      next
        case False then have "j < i" using ne by simp
        then show False using * [of j i] i j eq by auto
      qed
    qed
  qed
  have dist: "distinct (map ?f [1..<Suc k])"
    using inj by (simp add: distinct_map del: upt_Suc)
  have sub: "?f ` {1..<Suc k} \<subseteq> {0..<k}" using assms by auto
  have "card (?f ` {1..<Suc k}) = k" using inj by (simp add: card_image)
  then have "?f ` {1..<Suc k} = {0..<k}"
    using sub by (simp add: card_subset_eq)
  then have "set (map ?f [1..<Suc k]) = set [0..<k]" by (simp del: upt_Suc)
  then show ?thesis
    using set_eq_iff_mset_eq_distinct[OF dist distinct_upt[of 0 k]] by blast
qed


text \<open>
  C3, as the code has it. For an array of \<open>1 \<le> length (v a) < 2 ^ 32\<close> slots whose
  counter is \<open>index a\<close>, the \<open>i\<close>-th of \<open>k\<close> consecutive calls of \<^verbatim>\<open>Get\<close> returns the
  slot \<open>unat (index a + i) mod length (v a)\<close>, the sum being taken in 32 bits. As long
  as the counter does not pass \<open>2 ^ 32\<close> during these calls, this is the slot
  \<open>(unat (index a) + i) mod length (v a)\<close>, and then \<open>length (v a)\<close> consecutive calls
  return every slot exactly once.
\<close>

theorem Get_round_robin:
  assumes ne: "v a \<noteq> []" and len: "length (v a) < 2 ^ 32"
  shows "fst (Gets k a) =
           map (\<lambda>i. Inr (v a ! (unat (index a + of_nat i) mod length (v a)))) [1..<Suc k]
         \<and> (unat (index a) + k < 2 ^ 32 \<longrightarrow>
              fst (Gets k a) =
                map (\<lambda>i. Inr (v a ! ((unat (index a) + i) mod length (v a)))) [1..<Suc k]
              \<and> (k = length (v a) \<longrightarrow> mset (fst (Gets k a)) = mset (map Inr (v a))))"
proof -
  have m: "length (v a) mod 2 ^ 32 = length (v a)" using len by simp
  then have nz: "length (v a) mod 2 ^ 32 \<noteq> 0" using ne by simp
  have gen: "fst (Gets k a) =
      map (\<lambda>i. Inr (v a ! (unat (index a + of_nat i) mod length (v a)))) [1..<Suc k]"
    using Gets_eq[OF nz, of k] m by simp
  have nowrap: "fst (Gets k a) =
      map (\<lambda>i. Inr (v a ! ((unat (index a) + i) mod length (v a)))) [1..<Suc k]"
    if w: "unat (index a) + k < 2 ^ 32"
  proof -
    have "\<And>i. i \<in> set [1..<Suc k] \<Longrightarrow> unat (index a + of_nat i) = unat (index a) + i"
      using w by (intro unat_no_wrap) auto
    then show ?thesis unfolding gen by (intro map_cong) (simp_all del: upt_Suc)
  qed
  have perm: "mset (fst (Gets k a)) = mset (map Inr (v a))"
    if w: "unat (index a) + k < 2 ^ 32" and k: "k = length (v a)"
  proof -
    let ?c = "unat (index a)"
    have k0: "0 < k" using ne k by simp
    have "fst (Gets k a) = map (\<lambda>j. Inr (v a ! j)) (map (\<lambda>i. (?c + i) mod k) [1..<Suc k])"
      using nowrap[OF w] k by (simp add: comp_def del: upt_Suc)
    then have "mset (fst (Gets k a)) =
        image_mset (\<lambda>j. Inr (v a ! j)) (mset (map (\<lambda>i. (?c + i) mod k) [1..<Suc k]))"
      by (simp only: mset_map)
    also have "\<dots> = image_mset (\<lambda>j. Inr (v a ! j)) (mset [0..<k])"
      by (simp only: window_perm[OF k0])
    also have "\<dots> = mset (map Inr (map (\<lambda>j. v a ! j) [0..<length (v a)]))"
      using k by (simp add: comp_def)
    also have "\<dots> = mset (map Inr (v a))" by (simp only: map_nth)
    finally show ?thesis .
  qed
  show ?thesis using gen nowrap perm by blast
qed

theorem Get_round_robin_witness:
  "fst (Gets 4 array3) = [Inr (Some 11), Inr (Some 12), Inr (Some 10), Inr (Some 11)]
   \<and> fst (Gets 3 array3) = [Inr (Some 11), Inr (Some 12), Inr (Some 10)]
   \<and> mset (fst (Gets 3 array3)) = mset (map Inr (v array3))"
proof -
  have ne: "v array3 \<noteq> []" and len: "length (v array3) < 2 ^ 32"
    and w4: "unat (index array3) + 4 < 2 ^ 32" and w3: "unat (index array3) + 3 < 2 ^ 32"
    and k3: "3 = length (v array3)"
    by (simp_all add: array3_def)
  note r4 = Get_round_robin[OF ne len, of 4, THEN conjunct2, THEN mp, OF w4, THEN conjunct1]
  note r3 = Get_round_robin[OF ne len, of 3, THEN conjunct2, THEN mp, OF w3]
  have e4: "map (\<lambda>i. Inr (v array3 ! ((unat (index array3) + i) mod length (v array3)))) [1..<Suc 4]
      = [Inr (Some 11), Inr (Some 12), Inr (Some 10), Inr (Some 11)]"
    by (simp add: array3_def upt_rec)
  have e3: "map (\<lambda>i. Inr (v array3 ! ((unat (index array3) + i) mod length (v array3)))) [1..<Suc 3]
      = [Inr (Some 11), Inr (Some 12), Inr (Some 10)]"
    by (simp add: array3_def upt_rec)
  show ?thesis
    using r4 r3[THEN conjunct1] r3[THEN conjunct2, THEN mp, OF k3] by (simp only: e4 e3)
qed

text \<open>
  With ten slots and the counter at \<open>2 ^ 32 - 1\<close>, the next call returns slot 0, where
  \<open>(c + 1) mod k\<close> is slot 6: the counter wraps to 0, and 10 does not divide \<open>2 ^ 32\<close>.
\<close>

theorem Get_round_robin_counterexample:
  "fst (Get array_wrap) = Inr (Some 0)
   \<and> v array_wrap ! ((unat (index array_wrap) + 1) mod length (v array_wrap)) = Some 6"
  by (simp add: Get_def array_wrap_def)

text \<open>
  C10, as the code has it. On an array whose number of slots is not a multiple of
  \<open>2 ^ 32\<close> (so of at least one slot), \<^verbatim>\<open>Get\<close> after \<^verbatim>\<open>Close\<close> does not panic and
  returns nil: nothing tells the caller that the array was closed.
\<close>

theorem Get_after_Close:
  "length (v a) mod 2 ^ 32 \<noteq> 0 \<Longrightarrow>
   Get (fst (Close e (a, n))) =
     (Inr None, a\<lparr>index := index a + 1, v := replicate (length (v a)) None\<rparr>)"
proof -
  assume nz: "length (v a) mod 2 ^ 32 \<noteq> 0"
  let ?a = "a\<lparr>v := replicate (length (v a)) None\<rparr>"
  have c: "fst (Close e (a, n)) = ?a" by (simp add: Close_eq)
  have nz': "length (v ?a) mod 2 ^ 32 \<noteq> 0" using nz by simp
  have lt: "unat (index a + 1) mod (length (v a) mod 2 ^ 32) < length (v a)"
    using nz by (meson mod_less_divisor mod_less_eq_dividend neq0_conv order_less_le_trans)
  show ?thesis unfolding c using Get_eq[OF nz'] lt by simp
qed

theorem Get_after_Close_witness:
  "Get (fst (Close (env_fail_at 0) (array3, \<lparr>dials = [], closes = []\<rparr>))) =
     (Inr None, \<lparr>index = 1, v = [None, None, None]\<rparr>)"
  using Get_after_Close[of array3 "env_fail_at 0" "\<lparr>dials = [], closes = []\<rparr>"]
  by (simp add: array3_def)

text \<open>
  With \<open>2 ^ 32\<close> slots, \<^verbatim>\<open>uint32(len(a.v))\<close> is 0 and \<^verbatim>\<open>Get\<close> after \<^verbatim>\<open>Close\<close> panics.
\<close>

theorem Get_after_Close_counterexample:
  "fst (Get (fst (Close env_ok (array_huge, \<lparr>dials = [], closes = []\<rparr>)))) = Inl DivideByZero"
  by (simp add: Close_eq Get_zero array_huge_def)

lemma Gets_empty:
  "v a = [] \<Longrightarrow> Gets k a = (replicate k (Inl DivideByZero), a\<lparr>index := index a + of_nat k\<rparr>)"
proof (induction k arbitrary: a)
  case 0
  then show ?case by simp
next
  case (Suc k)
  let ?a = "a\<lparr>index := index a + 1\<rparr>"
  have g: "Get a = (Inl DivideByZero, ?a)" using Suc.prems by (simp add: Get_zero)
  have "Gets k ?a = (replicate k (Inl DivideByZero), ?a\<lparr>index := index ?a + of_nat k\<rparr>)"
    using Suc.IH[of ?a] Suc.prems by simp
  then show ?case using g by (simp add: add.assoc)
qed

text \<open>
  C9. \<^verbatim>\<open>newConnArray(0, addr)\<close> succeeds without a dial and hands out an array of no
  slots. On an array of no slots every call of \<^verbatim>\<open>Get\<close> panics with a division by
  zero. A call of \<^verbatim>\<open>Get\<close> that returns was made on an array of at least one slot; it
  returns exactly when the low 32 bits of the number of slots are not zero.
\<close>

theorem newConnArray_zero_and_Get:
  "newConnArray e 0 addr (h, n) = (Inr (length h), h @ [\<lparr>index = 0, v = []\<rparr>], n)
   \<and> (v a = [] \<longrightarrow>
        Get a = (Inl DivideByZero, a\<lparr>index := index a + 1\<rparr>)
        \<and> Gets k a = (replicate k (Inl DivideByZero), a\<lparr>index := index a + of_nat k\<rparr>))
   \<and> ((\<exists>c. fst (Get a) = Inr c) \<longrightarrow> v a \<noteq> [])
   \<and> ((\<exists>c. fst (Get a) = Inr c) = (length (v a) mod 2 ^ 32 \<noteq> 0))"
proof -
  have new: "newConnArray e 0 addr (h, n) = (Inr (length h), h @ [\<lparr>index = 0, v = []\<rparr>], n)"
    using newConnArray_ok[of 0 e addr n h] by simp
  have iff: "(\<exists>c. fst (Get a) = Inr c) = (length (v a) mod 2 ^ 32 \<noteq> 0)"
  proof (cases "length (v a) mod 2 ^ 32 = 0")
    case True
    then show ?thesis by (simp add: Get_zero)
  next
    case False
    then show ?thesis by (simp add: Get_eq)
  qed
  have only: "(\<exists>c. fst (Get a) = Inr c) \<longrightarrow> v a \<noteq> []"
    using iff by auto
  show ?thesis using new iff only Gets_empty[of a k] by (simp add: Get_zero)
qed

theorem newConnArray_zero_and_Get_witness:
  "newConnArray (env_fail_at 0) 0 ''a'' ([], \<lparr>dials = [], closes = []\<rparr>) =
     (Inr 0, [\<lparr>index = 0, v = []\<rparr>], \<lparr>dials = [], closes = []\<rparr>)
   \<and> Get \<lparr>index = 0, v = []\<rparr> = (Inl DivideByZero, \<lparr>index = 1, v = []\<rparr>)
   \<and> Gets 2 \<lparr>index = 0, v = []\<rparr> = ([Inl DivideByZero, Inl DivideByZero], \<lparr>index = 2, v = []\<rparr>)"
proof -
  note t = newConnArray_zero_and_Get[of "env_fail_at 0" "''a''" "[]" "\<lparr>dials = [], closes = []\<rparr>"
      "\<lparr>index = 0, v = []\<rparr>" 2]
  have e: "v \<lparr>index = 0, v = []\<rparr> = []" by simp
  note g = t[THEN conjunct2, THEN conjunct1, THEN mp, OF e]
  have r: "replicate 2 (Inl DivideByZero :: panic + conn option) = [Inl DivideByZero, Inl DivideByZero]"
    by (simp add: numeral_2_eq_2)
  show ?thesis using t[THEN conjunct1] g[THEN conjunct1] g[THEN conjunct2] by (simp add: r)
qed

subsection \<open>The registry\<close>

lemma createConnArray_hit:
  "conns (client w) addr = Some p \<Longrightarrow> createConnArray e addr w = (Inr p, w)"
  by (simp add: createConnArray_def)

lemma createConnArray_ok:
  "conns (client w) addr = None \<Longrightarrow>
   (\<forall>j<10. dial_result e addr (length (dials (net w)) + j) = None) \<Longrightarrow>
   createConnArray e addr w =
     (Inr (length (heap w)),
      w\<lparr>client := (client w)\<lparr>conns := (conns (client w))(addr \<mapsto> length (heap w))\<rparr>,
        heap := heap w @ [\<lparr>index = 0,
                  v = map Some [length (dials (net w))..<length (dials (net w)) + 10]\<rparr>],
        net := (net w)\<lparr>dials := dials (net w) @ replicate 10 addr\<rparr>\<rparr>)"
  using newConnArray_ok[of 10 e addr "net w" "heap w"]
  by (simp add: createConnArray_def)

lemma createConnArray_fail:
  "conns (client w) addr = None \<Longrightarrow> i < 10 \<Longrightarrow>
   (\<forall>j<i. dial_result e addr (length (dials (net w)) + j) = None) \<Longrightarrow>
   dial_result e addr (length (dials (net w)) + i) = Some msg \<Longrightarrow>
   createConnArray e addr w =
     (Inl (TransportError msg),
      w\<lparr>heap := heap w @ [\<lparr>index = 0, v = replicate 10 None\<rparr>],
        net := (net w)\<lparr>dials := dials (net w) @ replicate (Suc i) addr,
                 closes := closes (net w)
                   @ [length (dials (net w))..<length (dials (net w)) + i]\<rparr>\<rparr>)"
  using newConnArray_fail[of i 10 e addr "net w" msg "heap w"]
  by (simp add: createConnArray_def)


lemma getConnArray_closed:
  "isClosed (client w) \<Longrightarrow> getConnArray e addr w = (Inl ClientClosed, w)"
  by (simp add: getConnArray_def)

lemma getConnArray_open:
  "\<not> isClosed (client w) \<Longrightarrow> getConnArray e addr w = createConnArray e addr w"
  by (simp add: getConnArray_def createConnArray_def split: option.splits)

lemma close_at_client [simp]: "client (close_at e p w) = client w"
  by (simp add: close_at_def split: prod.splits)

lemma close_all_client [simp]: "client (close_all e ks w) = client w"
  by (induction ks arbitrary: w) (simp_all split: option.splits)

lemma closeConns_isClosed: "isClosed (client (closeConns e order w))"
  by (simp add: closeConns_def)

lemma closeConns_conns: "conns (client (closeConns e order w)) = conns (client w)"
  by (simp add: closeConns_def)

lemma closeConns_closed_noop: "isClosed (client w) \<Longrightarrow> closeConns e order w = w"
  by (simp add: closeConns_def)

lemma createConnArray_isClosed:
  "isClosed (client (snd (createConnArray e addr w))) = isClosed (client w)"
  by (simp add: createConnArray_def split: option.splits prod.splits sum.splits)

lemma step_out_of_range: "\<not> t < length gs \<Longrightarrow> step e t (gs, w) = (gs, w)"
  by (simp add: step_def)

lemma step_Calling_get:
  "t < length gs \<Longrightarrow> gs ! t = Calling_get addr \<Longrightarrow>
   step e t (gs, w) =
     (if isClosed (client w) then (gs[t := Returned (Inl ClientClosed)], w)
      else case conns (client w) addr of
             Some p \<Rightarrow> (gs[t := Returned (Inr p)], w)
           | None \<Rightarrow> (gs[t := Creating addr], w))"
  by (simp add: step_def)

lemma step_Creating:
  "t < length gs \<Longrightarrow> gs ! t = Creating addr \<Longrightarrow>
   step e t (gs, w) =
     (gs[t := Returned (fst (createConnArray e addr w))], snd (createConnArray e addr w))"
  by (simp add: step_def split: prod.splits)

lemma step_Returned:
  "gs ! t = Returned r \<Longrightarrow> step e t (gs, w) = (gs, w)"
  by (simp add: step_def)

lemma step_Calling_close:
  "t < length gs \<Longrightarrow> gs ! t = Calling_close order \<Longrightarrow>
   step e t (gs, w) = (gs[t := Close_returned], closeConns e order w)"
  by (simp add: step_def)

lemma step_Close_returned:
  "gs ! t = Close_returned \<Longrightarrow> step e t (gs, w) = (gs, w)"
  by (simp add: step_def)

lemma step_isClosed:
  assumes "isClosed (client (snd gw))"
  shows "isClosed (client (snd (step e t gw)))"
proof (cases gw)
  case (Pair gs w)
  show ?thesis
  proof (cases "t < length gs")
    case False
    then show ?thesis using assms Pair by (simp add: step_out_of_range)
  next
    case True
    show ?thesis
    proof (cases "gs ! t")
      case (Calling_get addr)
      then show ?thesis using assms Pair True by (simp add: step_Calling_get)
    next
      case (Creating addr)
      then show ?thesis using assms Pair True
        by (simp add: step_Creating createConnArray_isClosed)
    next
      case (Returned r)
      then show ?thesis using assms Pair by (simp add: step_Returned)
    next
      case (Calling_close order)
      then show ?thesis using assms Pair True
        by (simp add: step_Calling_close closeConns_isClosed)
    next
      case Close_returned
      then show ?thesis using assms Pair by (simp add: step_Close_returned)
    qed
  qed
qed

lemma run_isClosed:
  "isClosed (client (snd gw)) \<Longrightarrow> isClosed (client (snd (run e ts gw)))"
  by (induction ts arbitrary: gw) (simp_all add: step_isClosed)

text \<open>
  C2, as the code has it. When the address is registered, \<^verbatim>\<open>createConnArray\<close> returns
  the registered pointer and changes nothing: no array is allocated, no dial is made,
  the registry is the same. \<^verbatim>\<open>getConnArray\<close> does the same as long as the client is
  open; on a closed client it returns the error \<open>ClientClosed\<close> although the address
  is registered.
\<close>

theorem createConnArray_existing:
  "conns (client w) addr = Some p \<Longrightarrow>
   createConnArray e addr w = (Inr p, w)
   \<and> (\<not> isClosed (client w) \<longrightarrow> getConnArray e addr w = (Inr p, w))
   \<and> (isClosed (client w) \<longrightarrow> getConnArray e addr w = (Inl ClientClosed, w))"
  by (simp add: createConnArray_hit getConnArray_def)

theorem createConnArray_existing_witness:
  "createConnArray (env_fail_at 0) ''a'' (world_reg ''a'') = (Inr 0, world_reg ''a'')
   \<and> getConnArray (env_fail_at 0) ''a'' (world_reg ''a'') = (Inr 0, world_reg ''a'')"
  using createConnArray_existing[of "world_reg ''a''" "''a''" 0 "env_fail_at 0"]
  by (simp add: world_reg_def)

text \<open>
  After \<^verbatim>\<open>closeConns\<close> the address is still in the registry, and \<^verbatim>\<open>getConnArray\<close> does
  not return its entry.
\<close>

theorem getConnArray_existing_counterexample:
  "conns (client (closeConns env_ok [''a''] (world_reg ''a''))) ''a'' = Some 0
   \<and> fst (getConnArray env_ok ''a'' (closeConns env_ok [''a''] (world_reg ''a''))) = Inl ClientClosed"
  by (simp add: closeConns_conns getConnArray_closed closeConns_isClosed) (simp add: world_reg_def)

text \<open>
  C7. When the address is missing and the dial for slot \<open>i\<close> is the first to fail,
  \<^verbatim>\<open>createConnArray\<close> returns the error of that dial, and the client, with its
  registry, is what it was; \<^verbatim>\<open>getConnArray\<close> on an open client returns the same. A
  second call for the address dials again, and when its ten dials succeed it returns
  a new array and registers it.
\<close>

theorem createConnArray_failure:
  assumes miss: "conns (client w) addr = None"
    and i: "i < 10"
    and before: "\<forall>j<i. dial_result e addr (length (dials (net w)) + j) = None"
    and fail: "dial_result e addr (length (dials (net w)) + i) = Some msg"
  shows "createConnArray e addr w =
       (Inl (TransportError msg),
        w\<lparr>heap := heap w @ [\<lparr>index = 0, v = replicate 10 None\<rparr>],
          net := (net w)\<lparr>dials := dials (net w) @ replicate (Suc i) addr,
                   closes := closes (net w)
                     @ [length (dials (net w))..<length (dials (net w)) + i]\<rparr>\<rparr>)
     \<and> client (snd (createConnArray e addr w)) = client w
     \<and> (\<not> isClosed (client w) \<longrightarrow> getConnArray e addr w = createConnArray e addr w)
     \<and> length (dials (net (snd (createConnArray e addr w))))
         < length (dials (net (snd (createConnArray e addr (snd (createConnArray e addr w))))))
     \<and> ((\<forall>j<10. dial_result e addr (length (dials (net w)) + Suc i + j) = None) \<longrightarrow>
          fst (createConnArray e addr (snd (createConnArray e addr w))) = Inr (Suc (length (heap w)))
          \<and> conns (client (snd (createConnArray e addr (snd (createConnArray e addr w))))) addr
              = Some (Suc (length (heap w))))"
proof -
  let ?w = "w\<lparr>heap := heap w @ [\<lparr>index = 0, v = replicate 10 None\<rparr>],
          net := (net w)\<lparr>dials := dials (net w) @ replicate (Suc i) addr,
                   closes := closes (net w)
                     @ [length (dials (net w))..<length (dials (net w)) + i]\<rparr>\<rparr>"
  have first: "createConnArray e addr w = (Inl (TransportError msg), ?w)"
    using createConnArray_fail[OF miss i before fail] .
  have miss': "conns (client ?w) addr = None" using miss by simp
  have len': "length (dials (net ?w)) = length (dials (net w)) + Suc i" by simp
  have again: "length (dials (net ?w)) < length (dials (net (snd (createConnArray e addr ?w))))"
  proof -
    let ?f = "\<lambda>j. dial_result e addr (length (dials (net ?w)) + j)"
    consider (ok) "\<forall>j<10. ?f j = None"
      | (bad) i' msg' where "i' < 10" "\<forall>j<i'. ?f j = None" "?f i' = Some msg'"
      using first_failure[of 10 ?f] by blast
    then show ?thesis
    proof cases
      case ok
      show ?thesis unfolding createConnArray_ok[OF miss' ok] by simp
    next
      case bad
      show ?thesis unfolding createConnArray_fail[OF miss' bad] by simp
    qed
  qed
  have retry: "fst (createConnArray e addr ?w) = Inr (Suc (length (heap w)))
      \<and> conns (client (snd (createConnArray e addr ?w))) addr = Some (Suc (length (heap w)))"
    if ok: "\<forall>j<10. dial_result e addr (length (dials (net w)) + Suc i + j) = None"
  proof -
    have ok': "\<forall>j<10. dial_result e addr (length (dials (net ?w)) + j) = None"
      using ok by (simp only: len')
    show ?thesis unfolding createConnArray_ok[OF miss' ok'] by simp
  qed
  show ?thesis unfolding first using again retry by (simp add: getConnArray_open first)
qed

theorem createConnArray_failure_witness:
  "createConnArray (env_fail_at 2) ''a'' world0 =
     (Inl (TransportError ''connection refused''),
      world0\<lparr>heap := [\<lparr>index = 0, v = replicate 10 None\<rparr>],
        net := \<lparr>dials = replicate 3 ''a'', closes = [0, 1]\<rparr>\<rparr>)
   \<and> fst (createConnArray (env_fail_at 2) ''a''
          (snd (createConnArray (env_fail_at 2) ''a'' world0))) = Inr 1
   \<and> conns (client (snd (createConnArray (env_fail_at 2) ''a''
          (snd (createConnArray (env_fail_at 2) ''a'' world0))))) ''a'' = Some 1"
proof -
  have m: "conns (client world0) ''a'' = None" by (simp add: world0_def newRPCClient_def)
  have i: "(2::nat) < 10" by simp
  have b: "\<forall>j<2. dial_result (env_fail_at 2) ''a'' (length (dials (net world0)) + j) = None"
    by (simp add: env_fail_at_def world0_def)
  have f: "dial_result (env_fail_at 2) ''a'' (length (dials (net world0)) + 2)
      = Some ''connection refused''"
    by (simp add: env_fail_at_def world0_def)
  have r: "\<forall>j<10. dial_result (env_fail_at 2) ''a'' (length (dials (net world0)) + Suc 2 + j) = None"
    by (simp add: env_fail_at_def world0_def)
  note t = createConnArray_failure[OF m i b f]
  note t5 = t[THEN conjunct2, THEN conjunct2, THEN conjunct2, THEN conjunct2, THEN mp, OF r]
  have w: "world0\<lparr>heap := heap world0 @ [\<lparr>index = 0, v = replicate 10 None\<rparr>],
          net := (net world0)\<lparr>dials := dials (net world0) @ replicate (Suc 2) ''a'',
                   closes := closes (net world0)
                     @ [length (dials (net world0))..<length (dials (net world0)) + 2]\<rparr>\<rparr>
      = world0\<lparr>heap := [\<lparr>index = 0, v = replicate 10 None\<rparr>],
        net := \<lparr>dials = replicate 3 ''a'', closes = [0, 1]\<rparr>\<rparr>"
    by (simp add: world0_def upt_rec numeral_3_eq_3)
  have h: "Suc (length (heap world0)) = 1" by (simp add: world0_def)
  show ?thesis using t[THEN conjunct1] t5 by (simp only: w h) 
qed

subsection \<open>Closing the client\<close>

lemma closeConns_world_reg:
  "closeConns e [addr] (world_reg addr) =
     \<lparr>client = \<lparr>isClosed = True, conns = [addr \<mapsto> 0]\<rparr>,
      heap = [\<lparr>index = 0, v = replicate 10 None\<rparr>],
      net = \<lparr>dials = replicate 10 addr, closes = [0..<10]\<rparr>\<rparr>"
  by (simp add: closeConns_def world_reg_def close_at_def Close_eq)

text \<open>
  C5. Once \<^verbatim>\<open>closeConns\<close> has returned, whatever the goroutines \<open>gs\<close> do afterwards
  (any schedule \<open>ts\<close>), a call of \<^verbatim>\<open>getConnArray\<close> for any address returns the error
  \<open>ClientClosed\<close> and no pointer, and changes nothing; so does a goroutine that enters
  \<^verbatim>\<open>getConnArray\<close> then, in its first step.
\<close>

theorem getConnArray_after_closeConns:
  "getConnArray e addr (snd (run e ts (gs, closeConns e order w))) =
     (Inl ClientClosed, snd (run e ts (gs, closeConns e order w)))
   \<and> (t < length (fst (run e ts (gs, closeConns e order w)))
        \<and> fst (run e ts (gs, closeConns e order w)) ! t = Calling_get addr \<longrightarrow>
      step e t (run e ts (gs, closeConns e order w)) =
        ((fst (run e ts (gs, closeConns e order w)))[t := Returned (Inl ClientClosed)],
         snd (run e ts (gs, closeConns e order w))))"
proof -
  have c: "isClosed (client (snd (run e ts (gs, closeConns e order w))))"
    by (rule run_isClosed) (simp add: closeConns_isClosed)
  show ?thesis using c by (simp add: getConnArray_closed step_def)
qed


theorem getConnArray_after_closeConns_witness:
  "getConnArray env_ok ''a'' (closeConns env_ok [''a''] (world_reg ''a'')) =
     (Inl ClientClosed, closeConns env_ok [''a''] (world_reg ''a''))
   \<and> step env_ok 0 ([Calling_get ''b''], closeConns env_ok [''a''] (world_reg ''a'')) =
     ([Returned (Inl ClientClosed)], closeConns env_ok [''a''] (world_reg ''a''))"
  using getConnArray_after_closeConns[of env_ok "''a''" "[]" "[Calling_get ''b'']" "[''a'']"
      "world_reg ''a''" 0]
    getConnArray_after_closeConns[of env_ok "''b''" "[]" "[Calling_get ''b'']" "[''a'']"
      "world_reg ''a''" 0]
  by simp

text \<open>
  C6 fails on the code. The flag never goes back to false (\<open>run_isClosed\<close>) and
  \<^verbatim>\<open>closeConns\<close> on a closed client does nothing (\<open>closeConns_closed_noop\<close>), but
  \<^verbatim>\<open>createConnArray\<close> does not look at the flag. Goroutine 0 enters
  \<^verbatim>\<open>getConnArray("a")\<close> on a fresh client and leaves the read-locked section with the
  address missing; goroutine 1 runs \<^verbatim>\<open>closeConns()\<close>; goroutine 0 goes on into
  \<^verbatim>\<open>createConnArray("a")\<close>: a new entry is added to the registry of the closed client,
  and its ten connections are open and will not be closed by a later \<^verbatim>\<open>closeConns\<close>.
\<close>

theorem createConnArray_after_closeConns:
  "run env_ok [0, 1] ([Calling_get ''a'', Calling_close []], world0) =
     ([Creating ''a'', Close_returned],
      \<lparr>client = \<lparr>isClosed = True, conns = Map.empty\<rparr>, heap = [],
       net = \<lparr>dials = [], closes = []\<rparr>\<rparr>)
   \<and> run env_ok [0, 1, 0] ([Calling_get ''a'', Calling_close []], world0) =
     ([Returned (Inr 0), Close_returned],
      \<lparr>client = \<lparr>isClosed = True, conns = [''a'' \<mapsto> 0]\<rparr>,
       heap = [\<lparr>index = 0, v = map Some [0..<10]\<rparr>],
       net = \<lparr>dials = replicate 10 ''a'', closes = []\<rparr>\<rparr>)"
proof -
  let ?w = "\<lparr>client = \<lparr>isClosed = True, conns = Map.empty\<rparr>, heap = [],
       net = \<lparr>dials = [], closes = []\<rparr>\<rparr>"
  have s1: "step env_ok 0 ([Calling_get ''a'', Calling_close []], world0) =
      ([Creating ''a'', Calling_close []], world0)"
    by (simp add: step_Calling_get world0_def newRPCClient_def)
  have s2: "step env_ok 1 ([Creating ''a'', Calling_close []], world0) =
      ([Creating ''a'', Close_returned], ?w)"
    by (simp add: step_Calling_close closeConns_def world0_def newRPCClient_def)
  have c: "createConnArray env_ok ''a'' ?w =
      (Inr 0, \<lparr>client = \<lparr>isClosed = True, conns = [''a'' \<mapsto> 0]\<rparr>,
       heap = [\<lparr>index = 0, v = map Some [0..<10]\<rparr>],
       net = \<lparr>dials = replicate 10 ''a'', closes = []\<rparr>\<rparr>)"
    using createConnArray_ok[of ?w "''a''" env_ok] by (simp add: env_ok_def)
  have s3: "step env_ok 0 ([Creating ''a'', Close_returned], ?w) =
      ([Returned (Inr 0), Close_returned],
       \<lparr>client = \<lparr>isClosed = True, conns = [''a'' \<mapsto> 0]\<rparr>,
       heap = [\<lparr>index = 0, v = map Some [0..<10]\<rparr>],
       net = \<lparr>dials = replicate 10 ''a'', closes = []\<rparr>\<rparr>)"
    by (simp add: step_Creating c)
  have r2: "run env_ok [0, 1] ([Calling_get ''a'', Calling_close []], world0) =
      ([Creating ''a'', Close_returned], ?w)"
    by (simp only: run.simps s1 s2)
  have r3: "run env_ok [0, 1, 0] ([Calling_get ''a'', Calling_close []], world0) =
      ([Returned (Inr 0), Close_returned],
       \<lparr>client = \<lparr>isClosed = True, conns = [''a'' \<mapsto> 0]\<rparr>,
       heap = [\<lparr>index = 0, v = map Some [0..<10]\<rparr>],
       net = \<lparr>dials = replicate 10 ''a'', closes = []\<rparr>\<rparr>)"
    by (simp only: run.simps s1 s2 s3)
  show ?thesis using r2 r3 by (rule conjI)
qed

subsection \<open>Goroutines racing for one address\<close>

lemma step_cases:
  obtains (skip) "step e t (gs, w) = (gs, w)"
  | (upd) g w' where "t < length gs" "step e t (gs, w) = (gs[t := g], w')"
proof (cases "t < length gs")
  case False
  then show ?thesis using skip by (simp add: step_out_of_range)
next
  case True
  show ?thesis
  proof (cases "gs ! t")
    case (Calling_get a)
    show ?thesis
    proof (cases "isClosed (client w)")
      case c: True
      show ?thesis using upd[OF True] Calling_get True c by (simp add: step_Calling_get)
    next
      case c: False
      show ?thesis
      proof (cases "conns (client w) a")
        case None
        show ?thesis using upd[OF True] Calling_get True c None by (simp add: step_Calling_get)
      next
        case (Some p)
        show ?thesis using upd[OF True] Calling_get True c Some by (simp add: step_Calling_get)
      qed
    qed
  next
    case (Creating a)
    show ?thesis using upd[OF True] Creating True by (simp add: step_Creating)
  next
    case (Returned r)
    then show ?thesis using skip by (simp add: step_Returned)
  next
    case (Calling_close order)
    show ?thesis using upd[OF True] Calling_close True by (simp add: step_Calling_close)
  next
    case Close_returned
    then show ?thesis using skip by (simp add: step_Close_returned)
  qed
qed

lemma length_step [simp]: "length (fst (step e t gw)) = length (fst gw)"
proof (cases gw)
  case (Pair gs w)
  show ?thesis unfolding Pair by (cases e t gs w rule: step_cases) simp_all
qed

lemma length_run [simp]: "length (fst (run e ts gw)) = length (fst gw)"
  by (induction ts arbitrary: gw) simp_all













text \<open>
  A goroutine that takes its two steps with nobody in between does what the function
  \<open>getConnArray\<close> does.
\<close>

lemma getConnArray_as_steps:
  assumes "t < length gs" "gs ! t = Calling_get addr"
  shows "run e [t, t] (gs, w) =
     (gs[t := Returned (fst (getConnArray e addr w))], snd (getConnArray e addr w))"
proof (cases "isClosed (client w)")
  case True
  then show ?thesis using assms
    by (simp add: step_Calling_get step_Returned getConnArray_closed)
next
  case False
  show ?thesis
  proof (cases "conns (client w) addr")
    case None
    then show ?thesis using assms False
      by (simp add: step_Calling_get step_Creating getConnArray_open)
  next
    case (Some p)
    then show ?thesis using assms False
      by (simp add: step_Calling_get step_Returned getConnArray_open createConnArray_hit)
  qed
qed













end
